theory Spec2Isabelle
  imports Main "HOL-Library.AList"
begin

section \<open>The client message broker of the web-worker platform\<close>

text \<open>
  A shallow embedding of
  \<open>modules/@angular/platform-webworker/src/web_workers/shared/client_message_broker.ts\<close>:
  the classes \<open>ClientMessageBroker_\<close>, \<open>MessageData\<close>, \<open>FnArg\<close> and \<open>UiArguments\<close>.
  Mutation of the broker is explicit state passing, a thrown exception is the left
  summand of a sum, and the \<open>while\<close> loop of \<open>_generateMessageId\<close> is a recursive
  function with a termination proof.
\<close>

subsection \<open>Values, types and errors\<close>

text \<open>
  The values the broker handles have the TypeScript type \<open>any\<close>. The bus delivers
  JSON-like envelopes, so a value is \<open>undefined\<close>, \<open>null\<close>, a boolean, an (integral)
  number, a string, an array or an object given by its own properties in order. No
  such value is callable and none is thenable.
\<close>

datatype jsval =
    JUndefined
  | JNull
  | JBool bool
  | JNum int
  | JStr string
  | JArr "jsval list"
  | JObj "(string \<times> jsval) list"

text \<open>An object \<open>{[key: string]: any}\<close>: its own properties.\<close>

type_synonym js_object = "(string \<times> jsval) list"

text \<open>\<open>Type<any>\<close>: a class used as a type tag, given by its name.\<close>

datatype Type = Class string

text \<open>
  The exception the code can raise by itself: calling what is not a function, or reading
  a property of \<open>null\<close> or \<open>undefined\<close>.
\<close>

datatype error = TypeError

text \<open>
  A promise is pending, fulfilled with a value, or rejected with a reason: a value passed
  to \<open>reject\<close>, or an exception thrown inside a callback.
\<close>

datatype reason = Thrown error | Reason jsval

datatype settle = Pending | Fulfilled jsval | Rejected reason

subsection \<open>Rendering numbers\<close>

definition digit_char :: "nat \<Rightarrow> char" where
  "digit_char d = ''0123456789'' ! d"

fun decimal :: "nat \<Rightarrow> string" where
  "decimal n =
     (if n < 10 then [digit_char n]
      else decimal (n div 10) @ [digit_char (n mod 10)])"

declare decimal.simps [simp del]

text \<open>
  Modelled from the spec: \<open>stringify\<close> is imported from \<open>facade/lang\<close>, which is not among
  the sources. The spec composes the id from the method name, the current time in
  milliseconds and an integer suffix, so on the two numbers it is applied to (the clock
  reading and the initial counter) \<open>stringify\<close> is the decimal rendering of the integer.
  The loop body does not call it: its template literal renders the counter itself.
\<close>

definition stringify :: "int \<Rightarrow> string" where
  "stringify i = (if i < 0 then CHR ''-'' # decimal (nat (- i)) else decimal (nat i))"

subsection \<open>The pending table\<close>

text \<open>
  \<open>_pending\<close> is a \<open>Map<string, PromiseCompleter>\<close>: an association list in insertion
  order. A completer is the pair of closures \<open>{resolve, reject}\<close> of one promise, so it
  is modelled by the address of that promise in the broker's promise store. The keys
  of the table are strings; \<open>has\<close>, \<open>get\<close> and \<open>delete\<close> receive \<open>data.id\<close>, which can
  be any value, and a value that is not a string equals no key.
\<close>

type_synonym PromiseCompleter = nat

type_synonym pending_table = "(string \<times> PromiseCompleter) list"

definition map_has :: "pending_table \<Rightarrow> jsval \<Rightarrow> bool" where
  "map_has table key = (case key of JStr k \<Rightarrow> map_of table k \<noteq> None | _ \<Rightarrow> False)"

definition map_get :: "pending_table \<Rightarrow> jsval \<Rightarrow> PromiseCompleter option" where
  "map_get table key = (case key of JStr k \<Rightarrow> map_of table k | _ \<Rightarrow> None)"

definition map_set :: "string \<Rightarrow> PromiseCompleter \<Rightarrow> pending_table \<Rightarrow> pending_table" where
  "map_set k completer table = AList.update k completer table"

definition map_delete :: "jsval \<Rightarrow> pending_table \<Rightarrow> pending_table" where
  "map_delete key table = (case key of JStr k \<Rightarrow> AList.delete k table | _ \<Rightarrow> table)"

subsection \<open>Generating a message id\<close>

text \<open>
  The loop of \<open>_generateMessageId\<close> on its two variables \<open>id\<close> and \<open>iteration\<close>; it
  returns both, so the final \<open>iteration\<close> is the number of passes through the body.
  \<open>time\<close> is the string \<open>stringify(new Date().getTime())\<close>; the template literal of the
  body renders the counter in decimal. The counter is a natural
  number: it stays far below \<open>2 ^ 53\<close>, where a JavaScript number stops being exact,
  because it is bounded by the size of the table.
\<close>

function generate_loop ::
  "pending_table \<Rightarrow> string \<Rightarrow> string \<Rightarrow> string \<Rightarrow> nat \<Rightarrow> string \<times> nat" where
  "generate_loop table name time ident iteration =
     (if map_has table (JStr ident)
      then generate_loop table name time
             (name @ time @ decimal iteration) (Suc iteration)
      else (ident, iteration))"
  by pat_completeness auto

text \<open>\<open>now\<close> is the clock reading \<open>new Date().getTime()\<close>, an input of the environment.\<close>

definition generateMessageId :: "pending_table \<Rightarrow> string \<Rightarrow> int \<Rightarrow> string" where
  "generateMessageId table name now =
     (let time = stringify now;
          iteration = 0;
          ident = name @ time @ stringify (int iteration)
      in fst (generate_loop table name time ident iteration))"

subsection \<open>Decimal rendering is injective\<close>

definition digit_value :: "char \<Rightarrow> nat" where
  "digit_value c = of_char c - 48"

definition read_decimal :: "string \<Rightarrow> nat" where
  "read_decimal s = foldl (\<lambda>a c. 10 * a + digit_value c) 0 s"

lemma digit_value_digit_char: "d < 10 \<Longrightarrow> digit_value (digit_char d) = d"
proof -
  assume "d < 10"
  then have "d \<in> {0, 1, 2, 3, 4, 5, 6, 7, 8, 9}" by auto
  then show ?thesis
    by (auto simp: digit_value_def digit_char_def)
qed

lemma read_decimal_decimal: "read_decimal (decimal n) = n"
proof (induction n rule: decimal.induct)
  case (1 n)
  show ?case
  proof (cases "n < 10")
    case True
    then show ?thesis
      by (subst decimal.simps) (simp add: read_decimal_def digit_value_digit_char)
  next
    case False
    with 1 have "read_decimal (decimal (n div 10)) = n div 10" by simp
    with False show ?thesis
      by (subst decimal.simps) (simp add: read_decimal_def digit_value_digit_char)
  qed
qed

lemma decimal_inj: "decimal m = decimal n \<Longrightarrow> m = n"
  by (metis read_decimal_decimal)

lemma stringify_int: "stringify (int n) = decimal n"
  by (simp add: stringify_def)

subsection \<open>Termination of the collision loop\<close>

text \<open>
  The keys of the table that the loop can still collide with from counter \<open>i\<close> on. The
  set is finite because the table is, and it loses the key with suffix \<open>i\<close> when the
  counter passes \<open>i\<close>.
\<close>

definition colliding :: "pending_table \<Rightarrow> string \<Rightarrow> nat \<Rightarrow> string set" where
  "colliding table seed i =
     {k \<in> fst ` set table. \<exists>j\<ge>i. k = seed @ decimal j}"

lemma finite_colliding: "finite (colliding table seed i)"
  by (simp add: colliding_def)

lemma colliding_Suc_subset: "colliding table seed (Suc i) \<subseteq> colliding table seed i"
proof
  fix k assume "k \<in> colliding table seed (Suc i)"
  then obtain j where "k \<in> fst ` set table" "Suc i \<le> j" "k = seed @ decimal j"
    unfolding colliding_def by blast
  then have "k \<in> fst ` set table \<and> i \<le> j \<and> k = seed @ decimal j" by simp
  then show "k \<in> colliding table seed i"
    unfolding colliding_def by blast
qed

lemma map_has_iff: "map_has table (JStr k) \<longleftrightarrow> k \<in> fst ` set table"
  by (simp add: map_has_def map_of_eq_None_iff)

lemma colliding_Suc_less:
  assumes "map_has table (JStr (seed @ decimal i))"
  shows "card (colliding table seed (Suc i)) < card (colliding table seed i)"
proof -
  let ?k = "seed @ decimal i"
  have "?k \<in> fst ` set table" using assms by (simp add: map_has_iff)
  then have a: "?k \<in> colliding table seed i"
    unfolding colliding_def by blast
  have b: "?k \<notin> colliding table seed (Suc i)"
  proof
    assume "?k \<in> colliding table seed (Suc i)"
    then obtain j where "Suc i \<le> j" "?k = seed @ decimal j"
      unfolding colliding_def by blast
    then have "i = j" "Suc i \<le> j" using decimal_inj by auto
    then show False by simp
  qed
  from a b have "colliding table seed (Suc i) \<subset> colliding table seed i"
    using colliding_Suc_subset [of table seed i] by blast
  then show ?thesis
    by (rule psubset_card_mono [OF finite_colliding])
qed

text \<open>
  The measure: twice the number of keys still ahead of the counter, plus one while the
  current id collides. The first pass leaves the id as it is and only moves the counter
  from 0 to 1; the measure still drops, because the key with suffix 0 is no longer ahead.
\<close>

termination generate_loop
proof (relation "measure (\<lambda>(table, name, time, ident, iteration).
          2 * card (colliding table (name @ time) iteration)
          + (if map_has table (JStr ident) then 1 else 0))")
  show "wf (measure (\<lambda>(table, name, time, ident, iteration).
          2 * card (colliding table (name @ time) iteration)
          + (if map_has table (JStr ident) then 1 else 0)))"
    by simp
next
  fix table :: pending_table and name time ident :: string and iteration :: nat
  assume h: "map_has table (JStr ident)"
  show "((table, name, time, name @ time @ decimal iteration, Suc iteration),
         (table, name, time, ident, iteration))
        \<in> measure (\<lambda>(table, name, time, ident, iteration).
          2 * card (colliding table (name @ time) iteration)
          + (if map_has table (JStr ident) then 1 else 0))"
  proof (cases "map_has table (JStr (name @ time @ decimal iteration))")
    case True
    then have "card (colliding table (name @ time) (Suc iteration))
        < card (colliding table (name @ time) iteration)"
      using colliding_Suc_less [of table "name @ time" iteration] by simp
    with h True show ?thesis by simp
  next
    case False
    have "card (colliding table (name @ time) (Suc iteration))
        \<le> card (colliding table (name @ time) iteration)"
      by (rule card_mono [OF finite_colliding colliding_Suc_subset])
    with h False show ?thesis by simp
  qed
qed

declare generate_loop.simps [simp del]

subsection \<open>Arguments, messages and the serializer\<close>

text \<open>
  The serializer is an external collaborator: its two operations are parameters of the
  model. The field \<open>_serializer\<close> of a broker can hold no serializer (\<open>null\<close>), which
  the code itself tests for.
\<close>

record Serializer =
  serialize :: "jsval \<Rightarrow> Type \<Rightarrow> jsval"
  deserialize :: "jsval \<Rightarrow> Type \<Rightarrow> jsval"

text \<open>\<open>FnArg\<close>: a value and its type tag; \<open>None\<close> is a tag that is \<open>null\<close> or \<open>undefined\<close>.\<close>

record FnArg =
  arg_value :: jsval
  arg_type :: "Type option"

text \<open>\<open>UiArguments\<close>: the name of the method and the optional array \<open>args\<close>.\<close>

record UiArguments =
  ui_method :: string
  ui_args :: "FnArg list option"

text \<open>The message written to the sink: \<open>{method, args}\<close>, and \<open>id\<close> when one was made.\<close>

record out_message =
  msg_method :: string
  msg_args :: "jsval list"
  msg_id :: "string option"

text \<open>
  A method call on \<open>this._serializer\<close>: it throws when the field holds no serializer.
\<close>

definition call_serialize :: "Serializer option \<Rightarrow> jsval \<Rightarrow> Type \<Rightarrow> error + jsval" where
  "call_serialize ser v t =
     (case ser of None \<Rightarrow> Inl TypeError | Some s \<Rightarrow> Inr (serialize s v t))"

definition call_deserialize :: "Serializer option \<Rightarrow> jsval \<Rightarrow> Type \<Rightarrow> error + jsval" where
  "call_deserialize ser v t =
     (case ser of None \<Rightarrow> Inl TypeError | Some s \<Rightarrow> Inr (deserialize s v t))"

text \<open>The body of the \<open>forEach\<close> of \<open>runOnService\<close>: what is pushed for one argument.\<close>

definition encode_arg :: "Serializer option \<Rightarrow> FnArg \<Rightarrow> error + jsval" where
  "encode_arg ser argument =
     (case arg_type argument of
        Some t \<Rightarrow> call_serialize ser (arg_value argument) t
      | None \<Rightarrow> Inr (arg_value argument))"

fun encode_args :: "Serializer option \<Rightarrow> FnArg list \<Rightarrow> error + jsval list" where
  "encode_args ser [] = Inr []"
| "encode_args ser (argument # rest) =
     (case encode_arg ser argument of
        Inl e \<Rightarrow> Inl e
      | Inr v \<Rightarrow>
          (case encode_args ser rest of
             Inl e \<Rightarrow> Inl e
           | Inr vs \<Rightarrow> Inr (v # vs)))"

subsection \<open>Promises and the broker\<close>

text \<open>
  One call with a return type makes two promises that matter: \<open>promise_state\<close> is the
  promise built by \<open>new Promise\<close>, settled through the completer; \<open>future_state\<close> is
  \<open>promise.then(...)\<close>, the promise handed to the caller. \<open>return_type\<close> is the
  \<open>returnType\<close> the \<open>then\<close> callback closes over. Callbacks run as soon as the promise
  settles: the state recorded is the one after the microtasks have run.
\<close>

record call_promise =
  promise_state :: settle
  future_state :: settle
  return_type :: Type

text \<open>
  The broker: the fields \<open>_pending\<close> and \<open>_serializer\<close>; \<open>sink\<close> is the list of the
  messages emitted on \<open>_sink\<close>, oldest first; \<open>promises\<close> is the store of the promises
  made so far, addressed by position; \<open>console\<close> is what \<open>console.log\<close> has printed,
  or \<open>None\<close> where there is no \<open>console.log\<close>.
\<close>

record ClientMessageBroker =
  pending :: pending_table
  sink :: "out_message list"
  serializer :: "Serializer option"
  promises :: "call_promise list"
  console :: "jsval list option"

definition new_ClientMessageBroker ::
  "Serializer option \<Rightarrow> jsval list option \<Rightarrow> ClientMessageBroker" where
  "new_ClientMessageBroker ser con =
     \<lparr>pending = [], sink = [], serializer = ser, promises = [], console = con\<rparr>"

definition emit :: "out_message \<Rightarrow> ClientMessageBroker \<Rightarrow> ClientMessageBroker" where
  "emit message b = b\<lparr>sink := sink b @ [message]\<rparr>"

text \<open>
  The callback of \<open>promise.then\<close>:
  \<open>this._serializer ? value : this._serializer.deserialize(value, returnType)\<close>.
\<close>

definition then_callback :: "Serializer option \<Rightarrow> Type \<Rightarrow> jsval \<Rightarrow> error + jsval" where
  "then_callback ser returnType v =
     (if ser \<noteq> None then Inr v else call_deserialize ser v returnType)"

definition settled_with :: "error + jsval \<Rightarrow> settle" where
  "settled_with r = (case r of Inr v \<Rightarrow> Fulfilled v | Inl e \<Rightarrow> Rejected (Thrown e))"

text \<open>
  \<open>completer.resolve(value)\<close>: nothing happens when the promise is settled already;
  otherwise the promise is fulfilled (no value of the model is thenable) and the
  future takes the outcome of the \<open>then\<close> callback.
\<close>

definition completer_resolve ::
  "PromiseCompleter \<Rightarrow> jsval \<Rightarrow> ClientMessageBroker \<Rightarrow> ClientMessageBroker" where
  "completer_resolve p v b =
     (if p < length (promises b) \<and> promise_state (promises b ! p) = Pending
      then b\<lparr>promises := (promises b)
               [p := (promises b ! p)
                  \<lparr>promise_state := Fulfilled v,
                   future_state :=
                     settled_with (then_callback (serializer b) (return_type (promises b ! p)) v)\<rparr>]\<rparr>
      else b)"

text \<open>The \<open>reject\<close> function of a promise alone, without its callbacks.\<close>

definition promise_reject ::
  "PromiseCompleter \<Rightarrow> jsval \<Rightarrow> ClientMessageBroker \<Rightarrow> ClientMessageBroker" where
  "promise_reject p err b =
     (if p < length (promises b) \<and> promise_state (promises b ! p) = Pending
      then b\<lparr>promises := (promises b)
               [p := (promises b ! p)\<lparr>promise_state := Rejected (Reason err)\<rparr>]\<rparr>
      else b)"

text \<open>\<open>if (console && console.log) console.log(err)\<close>.\<close>

definition console_log :: "jsval \<Rightarrow> ClientMessageBroker \<Rightarrow> ClientMessageBroker" where
  "console_log err b = b\<lparr>console := map_option (\<lambda>printed. printed @ [err]) (console b)\<rparr>"

text \<open>
  The callback of \<open>promise.catch\<close>: it logs and calls \<open>completer.reject(err)\<close> once more,
  on a promise that is rejected by then.
\<close>

definition catch_callback ::
  "PromiseCompleter \<Rightarrow> jsval \<Rightarrow> ClientMessageBroker \<Rightarrow> ClientMessageBroker" where
  "catch_callback p err b = promise_reject p err (console_log err b)"

text \<open>
  \<open>completer.reject(err)\<close> on a pending promise: the promise is rejected, the \<open>catch\<close>
  callback runs, and the future, which has no rejection handler of its own, is rejected
  with the same reason.
\<close>

definition completer_reject ::
  "PromiseCompleter \<Rightarrow> jsval \<Rightarrow> ClientMessageBroker \<Rightarrow> ClientMessageBroker" where
  "completer_reject p err b =
     (if p < length (promises b) \<and> promise_state (promises b ! p) = Pending
      then (let b1 = promise_reject p err b;
                b2 = catch_callback p err b1
            in b2\<lparr>promises := (promises b2)
                    [p := (promises b2 ! p)\<lparr>future_state := Rejected (Reason err)\<rparr>]\<rparr>)
      else b)"

subsection \<open>runOnService\<close>

text \<open>
  The result is the broker after the call and the address of the promise whose
  \<open>future_state\<close> is the returned promise, or \<open>None\<close> for the \<open>null\<close> returned when
  \<open>returnType\<close> is \<open>null\<close>. \<open>Inl\<close> is an exception thrown out of the call, which leaves
  the broker as it was. \<open>now\<close> is the clock reading taken by \<open>_generateMessageId\<close>.
\<close>

definition runOnService ::
  "ClientMessageBroker \<Rightarrow> int \<Rightarrow> UiArguments \<Rightarrow> Type option
     \<Rightarrow> error + (ClientMessageBroker \<times> PromiseCompleter option)" where
  "runOnService b now args returnType =
     (case (case ui_args args of None \<Rightarrow> Inr [] | Some entries \<Rightarrow> encode_args (serializer b) entries) of
        Inl e \<Rightarrow> Inl e
      | Inr fnArgs \<Rightarrow>
          (case returnType of
             Some rt \<Rightarrow>
               (let completer = length (promises b);
                    b1 = b\<lparr>promises := promises b
                            @ [\<lparr>promise_state = Pending, future_state = Pending, return_type = rt\<rparr>]\<rparr>;
                    ident = generateMessageId (pending b1) (ui_method args) now;
                    b2 = b1\<lparr>pending := map_set ident completer (pending b1)\<rparr>;
                    message = \<lparr>msg_method = ui_method args, msg_args = fnArgs, msg_id = Some ident\<rparr>
                in Inr (emit message b2, Some completer))
           | None \<Rightarrow>
               (let message = \<lparr>msg_method = ui_method args, msg_args = fnArgs, msg_id = None\<rparr>
                in Inr (emit message b, None))))"

subsection \<open>Inbound messages\<close>

text \<open>
  \<open>data.hasOwnProperty(key)\<close>: the method is looked up on the object first. An object
  without an own property of that name inherits the built-in one, which tells whether
  \<open>key\<close> is an own property. An own property \<open>hasOwnProperty\<close> shadows it, and calling
  it throws, since no value of the model is a function.
\<close>

definition hasOwnProperty :: "js_object \<Rightarrow> string \<Rightarrow> error + bool" where
  "hasOwnProperty data key =
     (case map_of data ''hasOwnProperty'' of
        None \<Rightarrow> Inr (map_of data key \<noteq> None)
      | Some f \<Rightarrow> Inl TypeError)"

text \<open>
  \<open>data[key]\<close> for the keys the code reads (\<open>type\<close>, \<open>id\<close>, \<open>value\<close>), none of which is
  inherited from \<open>Object.prototype\<close>: the own property, or \<open>undefined\<close>.
\<close>

definition get_property :: "js_object \<Rightarrow> string \<Rightarrow> jsval" where
  "get_property data key = (case map_of data key of Some v \<Rightarrow> v | None \<Rightarrow> JUndefined)"

definition getValueIfPresent :: "js_object \<Rightarrow> string \<Rightarrow> error + jsval" where
  "getValueIfPresent data key =
     (case hasOwnProperty data key of
        Inl e \<Rightarrow> Inl e
      | Inr present \<Rightarrow> Inr (if present then get_property data key else JNull))"

record MessageData =
  data_type :: jsval
  data_id :: jsval
  data_value :: jsval

text \<open>The constructor of \<open>MessageData\<close>: \<open>type\<close> is read first, then \<open>id\<close>, then \<open>value\<close>.\<close>

definition new_MessageData :: "js_object \<Rightarrow> error + MessageData" where
  "new_MessageData data =
     (let type = get_property data ''type'' in
      case getValueIfPresent data ''id'' of
        Inl e \<Rightarrow> Inl e
      | Inr ident \<Rightarrow>
          (case getValueIfPresent data ''value'' of
             Inl e \<Rightarrow> Inl e
           | Inr v \<Rightarrow> Inr \<lparr>data_type = type, data_id = ident, data_value = v\<rparr>))"

text \<open>\<open>_handleMessage\<close>: \<open>Inl\<close> is an exception thrown out of the handler.\<close>

definition handleMessage ::
  "ClientMessageBroker \<Rightarrow> js_object \<Rightarrow> error + ClientMessageBroker" where
  "handleMessage b message =
     (case new_MessageData message of
        Inl e \<Rightarrow> Inl e
      | Inr data \<Rightarrow>
          if data_type data = JStr ''result'' \<or> data_type data = JStr ''error''
          then (let ident = data_id data in
                case map_get (pending b) ident of
                  None \<Rightarrow> Inr b
                | Some completer \<Rightarrow>
                    (let b1 = (if data_type data = JStr ''result''
                               then completer_resolve completer (data_value data) b
                               else completer_reject completer (data_value data) b)
                     in Inr (b1\<lparr>pending := map_delete ident (pending b1)\<rparr>)))
          else Inr b)"

section \<open>Properties\<close>

subsection \<open>The id generator returns\<close>

text \<open>
  What the loop returns from any state of its variables: an id that is not in the table;
  the state it was entered with when that id was free; otherwise the seed with the
  last counter value used as suffix, after at most one pass more than there are keys
  ahead of the counter.
\<close>

lemma generate_loop_result:
  "generate_loop table name time ident i = (r, j) \<Longrightarrow>
     \<not> map_has table (JStr r)
     \<and> (\<not> map_has table (JStr ident) \<longrightarrow> j = i \<and> r = ident)
     \<and> (map_has table (JStr ident) \<longrightarrow>
          i < j \<and> r = name @ time @ decimal (j - 1)
          \<and> j \<le> Suc i + card (colliding table (name @ time) i))"
proof (induction table name time ident i arbitrary: r j rule: generate_loop.induct)
  case (1 table name time ident iteration)
  show ?case
  proof (cases "map_has table (JStr ident)")
    case False
    with "1.prems" show ?thesis
      by (simp add: generate_loop.simps [of table name time ident iteration])
  next
    case True
    let ?next = "name @ time @ decimal iteration"
    from True "1.prems" have call: "generate_loop table name time ?next (Suc iteration) = (r, j)"
      by (simp add: generate_loop.simps [of table name time ident iteration])
    note ih = "1.IH" [OF True call]
    show ?thesis
    proof (cases "map_has table (JStr ?next)")
      case False
      with ih True show ?thesis by simp
    next
      case hit: True
      have less: "card (colliding table (name @ time) (Suc iteration))
          < card (colliding table (name @ time) iteration)"
        using colliding_Suc_less [of table "name @ time" iteration] hit by simp
      from ih hit have f1: "\<not> map_has table (JStr r)"
        and f2: "Suc iteration < j"
        and f3: "r = name @ time @ decimal (j - 1)"
        and f4: "j \<le> Suc (Suc iteration) + card (colliding table (name @ time) (Suc iteration))"
        by blast+
      from f2 have g2: "iteration < j" by simp
      from f4 less have g4: "j \<le> Suc iteration + card (colliding table (name @ time) iteration)"
        by linarith
      from True f1 g2 f3 g4 show ?thesis by blast
    qed
  qed
qed

lemma card_colliding_le: "card (colliding table seed i) \<le> length table"
proof -
  have "colliding table seed i \<subseteq> fst ` set table"
    unfolding colliding_def by blast
  then have "card (colliding table seed i) \<le> card (fst ` set table)"
    by (simp add: card_mono)
  also have "\<dots> \<le> card (set table)" by (simp add: card_image_le)
  also have "\<dots> \<le> length table" by (rule card_length)
  finally show ?thesis .
qed

text \<open>
  Claim C10. For every pending table (finite, as every table is) and every seed (method
  name and clock reading), the collision loop of \<open>_generateMessageId\<close> returns: it makes
  at most one pass more than the table has entries, and the id it returns is free. When
  the first id collides, the first pass assigns the same id again and only moves the
  counter from 0 to 1, so the run from counter 0 continues as the run from counter 1 on
  the same id; the returned id carries the suffix \<open>passes - 1\<close>, which is 0 after no
  pass as well as after one. \<open>generate_loop\<close> is a total function: its termination proof
  above is the measure argument, the keys ahead of the counter strictly decreasing.
\<close>

theorem generateMessageId_terminates:
  "\<exists>ident passes.
     generate_loop table name (stringify now) (name @ stringify now @ stringify 0) 0
       = (ident, passes)
     \<and> generateMessageId table name now = ident
     \<and> passes \<le> Suc (length table)
     \<and> ident = name @ stringify now @ decimal (passes - 1)
     \<and> \<not> map_has table (JStr ident)
     \<and> (map_has table (JStr (name @ stringify now @ stringify 0)) \<longrightarrow>
          generate_loop table name (stringify now) (name @ stringify now @ stringify 0) 0
          = generate_loop table name (stringify now) (name @ stringify now @ stringify 0) (Suc 0))"
proof -
  let ?time = "stringify now"
  let ?first = "name @ ?time @ stringify 0"
  obtain ident passes where run: "generate_loop table name ?time ?first 0 = (ident, passes)"
    by (cases "generate_loop table name ?time ?first 0")
  note res = generate_loop_result [OF run]
  have bound: "card (colliding table (name @ ?time) 0) \<le> length table"
    by (rule card_colliding_le)
  have a: "generateMessageId table name now = ident"
    using run by (simp add: generateMessageId_def)
  have b: "passes \<le> Suc (length table)"
    using res bound by (cases "map_has table (JStr ?first)") auto
  have zero: "stringify 0 = decimal 0"
    using stringify_int [of 0] by simp
  have c: "ident = name @ ?time @ decimal (passes - 1)"
    using res zero by (cases "map_has table (JStr ?first)") auto
  have d: "\<not> map_has table (JStr ident)" using res by simp
  have e: "map_has table (JStr ?first) \<longrightarrow>
      generate_loop table name ?time ?first 0 = generate_loop table name ?time ?first (Suc 0)"
  proof
    assume "map_has table (JStr ?first)"
    then have "generate_loop table name ?time ?first 0
        = generate_loop table name ?time (name @ ?time @ decimal 0) (Suc 0)"
      by (subst generate_loop.simps) simp
    then show "generate_loop table name ?time ?first 0
        = generate_loop table name ?time ?first (Suc 0)"
      by (simp only: zero)
  qed
  from run a b c d e show ?thesis by blast
qed

theorem generateMessageId_terminates_witness:
  "generate_loop [(''foo120'', 0), (''foo121'', 1)] ''foo'' (stringify 12) (''foo'' @ stringify 12 @ stringify 0) 0
     = (''foo122'', 3)
   \<and> generateMessageId [(''foo120'', 0), (''foo121'', 1)] ''foo'' 12 = ''foo122''
   \<and> map_has [(''foo120'', 0), (''foo121'', 1)] (JStr ''foo120'')"
  using generateMessageId_terminates [of "[(''foo120'', 0), (''foo121'', 1)]" "''foo''" 12]
  by (simp add: generateMessageId_def generate_loop.simps stringify_def decimal.simps digit_char_def map_has_def)


subsection \<open>Parsing an inbound payload\<close>

text \<open>
  On a payload that does not shadow \<open>hasOwnProperty\<close> the constructor of \<open>MessageData\<close>
  returns: \<open>id\<close> and \<open>value\<close> go through \<open>_getValueIfPresent\<close> and default to \<open>null\<close>,
  \<open>type\<close> is read directly. On a payload that shadows it, the constructor throws.
\<close>

lemma hasOwnProperty_builtin:
  "map_of data ''hasOwnProperty'' = None \<Longrightarrow>
     hasOwnProperty data key = Inr (map_of data key \<noteq> None)"
  by (simp add: hasOwnProperty_def)

lemma getValueIfPresent_builtin:
  "map_of data ''hasOwnProperty'' = None \<Longrightarrow>
     getValueIfPresent data key = Inr (case map_of data key of Some v \<Rightarrow> v | None \<Rightarrow> JNull)"
  by (simp add: getValueIfPresent_def hasOwnProperty_builtin get_property_def split: option.splits)

lemma new_MessageData_builtin:
  "map_of data ''hasOwnProperty'' = None \<Longrightarrow>
     new_MessageData data =
       Inr \<lparr>data_type = get_property data ''type'',
            data_id = (case map_of data ''id'' of Some v \<Rightarrow> v | None \<Rightarrow> JNull),
            data_value = (case map_of data ''value'' of Some v \<Rightarrow> v | None \<Rightarrow> JNull)\<rparr>"
  by (simp add: new_MessageData_def getValueIfPresent_builtin)

lemma new_MessageData_shadowed:
  "map_of data ''hasOwnProperty'' = Some f \<Longrightarrow> new_MessageData data = Inl TypeError"
  by (simp add: new_MessageData_def getValueIfPresent_def hasOwnProperty_def)

text \<open>
  Claim C8, as stated, fails: every field absent from the payload would be \<open>null\<close> and
  parsing would never fail. The empty payload parses to a \<open>type\<close> that is \<open>undefined\<close>,
  not \<open>null\<close>; and the payload \<open>{hasOwnProperty: 1}\<close> makes the constructor throw.
\<close>

theorem MessageData_defaults_counterexample:
  "new_MessageData [] = Inr \<lparr>data_type = JUndefined, data_id = JNull, data_value = JNull\<rparr>
   \<and> JUndefined \<noteq> JNull
   \<and> new_MessageData [(''hasOwnProperty'', JNum 1)] = Inl TypeError"
  by (simp add: new_MessageData_def getValueIfPresent_def hasOwnProperty_def get_property_def)

text \<open>
  Claim C8, amended. For every raw inbound payload that has no own property named
  \<open>hasOwnProperty\<close>, parsing it into \<open>{type, id, value}\<close> does not fail; a field that
  is present is taken over as it is; \<open>id\<close> and \<open>value\<close>, when absent, are \<open>null\<close>;
  \<open>type\<close>, when absent, is \<open>undefined\<close>.
\<close>

theorem MessageData_defaults:
  assumes "map_of data ''hasOwnProperty'' = None"
  shows "\<exists>d. new_MessageData data = Inr d
     \<and> data_type d = (case map_of data ''type'' of Some v \<Rightarrow> v | None \<Rightarrow> JUndefined)
     \<and> data_id d = (case map_of data ''id'' of Some v \<Rightarrow> v | None \<Rightarrow> JNull)
     \<and> data_value d = (case map_of data ''value'' of Some v \<Rightarrow> v | None \<Rightarrow> JNull)"
  using assms by (simp add: new_MessageData_builtin get_property_def)

theorem MessageData_defaults_witness:
  "map_of [(''type'', JStr ''ping'')] ''hasOwnProperty'' = None
   \<and> new_MessageData [(''type'', JStr ''ping'')]
       = Inr \<lparr>data_type = JStr ''ping'', data_id = JNull, data_value = JNull\<rparr>"
  using MessageData_defaults [of "[(''type'', JStr ''ping'')]"] by auto

subsection \<open>What the handler does with a parsed message\<close>

lemma handleMessage_builtin:
  assumes "map_of m ''hasOwnProperty'' = None"
  shows "handleMessage b m =
     (if get_property m ''type'' = JStr ''result'' \<or> get_property m ''type'' = JStr ''error''
      then (case map_get (pending b) (case map_of m ''id'' of Some v \<Rightarrow> v | None \<Rightarrow> JNull) of
              None \<Rightarrow> Inr b
            | Some completer \<Rightarrow>
                (let v = (case map_of m ''value'' of Some v \<Rightarrow> v | None \<Rightarrow> JNull);
                     b1 = (if get_property m ''type'' = JStr ''result''
                           then completer_resolve completer v b
                           else completer_reject completer v b)
                 in Inr (b1\<lparr>pending := map_delete
                      (case map_of m ''id'' of Some v \<Rightarrow> v | None \<Rightarrow> JNull) (pending b1)\<rparr>)))
      else Inr b)"
  using assms by (simp add: handleMessage_def new_MessageData_builtin Let_def cong: option.case_cong)

lemma pending_completer_resolve [simp]: "pending (completer_resolve p v b) = pending b"
  by (simp add: completer_resolve_def)

lemma pending_completer_reject [simp]: "pending (completer_reject p e b) = pending b"
  by (simp add: completer_reject_def catch_callback_def promise_reject_def console_log_def Let_def)

lemma completer_resolve_pending:
  assumes "p < length (promises b)" and "promise_state (promises b ! p) = Pending"
  shows "completer_resolve p v b =
     b\<lparr>promises := (promises b)
         [p := (promises b ! p)
            \<lparr>promise_state := Fulfilled v,
             future_state :=
               (case serializer b of Some s \<Rightarrow> Fulfilled v | None \<Rightarrow> Rejected (Thrown TypeError))\<rparr>]\<rparr>"
  using assms
  by (simp add: completer_resolve_def then_callback_def call_deserialize_def settled_with_def
      split: option.splits)

lemma completer_reject_pending:
  assumes "p < length (promises b)" and "promise_state (promises b ! p) = Pending"
  shows "completer_reject p e b =
     b\<lparr>promises := (promises b)
         [p := (promises b ! p)
            \<lparr>promise_state := Rejected (Reason e), future_state := Rejected (Reason e)\<rparr>],
       console := map_option (\<lambda>printed. printed @ [e]) (console b)\<rparr>"
  using assms
  by (simp add: completer_reject_def catch_callback_def promise_reject_def console_log_def Let_def)

lemma handleMessage_unmatched:
  assumes "map_of m ''hasOwnProperty'' = None"
    and "(get_property m ''type'' \<noteq> JStr ''result'' \<and> get_property m ''type'' \<noteq> JStr ''error'')
         \<or> (\<forall>k. map_of m ''id'' = Some (JStr k) \<longrightarrow> map_of (pending b) k = None)"
  shows "handleMessage b m = Inr b"
proof (cases "get_property m ''type'' = JStr ''result'' \<or> get_property m ''type'' = JStr ''error''")
  case False
  with assms(1) show ?thesis by (simp add: handleMessage_builtin)
next
  case True
  with assms(2) have free: "\<forall>k. map_of m ''id'' = Some (JStr k) \<longrightarrow> map_of (pending b) k = None"
    by blast
  have "map_get (pending b) (case map_of m ''id'' of Some v \<Rightarrow> v | None \<Rightarrow> JNull) = None"
    using free by (auto simp: map_get_def split: option.splits jsval.splits)
  with True assms(1) show ?thesis by (simp add: handleMessage_builtin)
qed

lemma handleMessage_matched:
  assumes "map_of m ''hasOwnProperty'' = None"
    and "get_property m ''type'' = JStr ''result'' \<or> get_property m ''type'' = JStr ''error''"
    and "map_of m ''id'' = Some (JStr X)"
    and "map_of (pending b) X = Some p"
  shows "handleMessage b m =
     Inr ((if get_property m ''type'' = JStr ''result''
           then completer_resolve p (case map_of m ''value'' of Some v \<Rightarrow> v | None \<Rightarrow> JNull) b
           else completer_reject p (case map_of m ''value'' of Some v \<Rightarrow> v | None \<Rightarrow> JNull) b)
          \<lparr>pending := AList.delete X (pending b)\<rparr>)"
  using assms
  by (auto simp: handleMessage_builtin map_get_def map_delete_def Let_def)

lemma handleMessage_not_shadowed:
  "handleMessage b m = Inr b' \<Longrightarrow> map_of m ''hasOwnProperty'' = None"
  by (cases "map_of m ''hasOwnProperty''") (simp_all add: handleMessage_def new_MessageData_shadowed)

lemma handleMessage_removes:
  assumes "handleMessage b m = Inr b'"
    and "get_property m ''type'' = JStr ''result'' \<or> get_property m ''type'' = JStr ''error''"
    and "map_of m ''id'' = Some (JStr X)"
  shows "map_of (pending b') X = None"
proof -
  have own: "map_of m ''hasOwnProperty'' = None"
    using assms(1) by (rule handleMessage_not_shadowed)
  show ?thesis
  proof (cases "map_of (pending b) X")
    case None
    with own assms(3) have "handleMessage b m = Inr b"
      by (intro handleMessage_unmatched) auto
    with assms(1) None show ?thesis by simp
  next
    case (Some p)
    from handleMessage_matched [OF own assms(2) assms(3) Some] assms(1)
    show ?thesis by (auto simp: delete_conv' split: if_splits)
  qed
qed


subsection \<open>The invariant of the broker\<close>

text \<open>
  In every state the broker reaches, the pending table holds each id once and each
  completer once, and every completer in it belongs to a promise of the store that is
  still pending, as is the future made from it.
\<close>

definition broker_inv :: "ClientMessageBroker \<Rightarrow> bool" where
  "broker_inv b \<longleftrightarrow>
     distinct (map fst (pending b)) \<and> distinct (map snd (pending b))
     \<and> (\<forall>(k, p) \<in> set (pending b).
           p < length (promises b)
           \<and> promise_state (promises b ! p) = Pending
           \<and> future_state (promises b ! p) = Pending)"

text \<open>
  The id returned by \<open>_generateMessageId\<close> is not a key of the table, so \<open>set\<close> appends
  an entry and replaces none.
\<close>

lemma generateMessageId_fresh:
  "map_of table (generateMessageId table name now) = None"
proof -
  obtain r j where run:
    "generate_loop table name (stringify now) (name @ stringify now @ stringify 0) 0 = (r, j)"
    by (cases "generate_loop table name (stringify now) (name @ stringify now @ stringify 0) 0")
  from generate_loop_result [OF run] have "\<not> map_has table (JStr r)" by simp
  with run show ?thesis by (simp add: generateMessageId_def map_has_def)
qed

lemma update_fresh: "map_of al k = None \<Longrightarrow> AList.update k v al = al @ [(k, v)]"
  by (induction al) (auto split: if_splits)

lemma runOnService_call:
  assumes "runOnService b now args (Some rt) = Inr (b', r)"
  shows "\<exists>fnArgs.
     (case ui_args args of None \<Rightarrow> Inr [] | Some entries \<Rightarrow> encode_args (serializer b) entries)
        = Inr fnArgs
     \<and> r = Some (length (promises b))
     \<and> b' = b\<lparr>promises := promises b
                 @ [\<lparr>promise_state = Pending, future_state = Pending, return_type = rt\<rparr>],
               pending := pending b
                 @ [(generateMessageId (pending b) (ui_method args) now, length (promises b))],
               sink := sink b
                 @ [\<lparr>msg_method = ui_method args, msg_args = fnArgs,
                      msg_id = Some (generateMessageId (pending b) (ui_method args) now)\<rparr>]\<rparr>"
  using assms
  by (auto simp: runOnService_def Let_def emit_def map_set_def update_fresh generateMessageId_fresh
      split: sum.splits)

lemma runOnService_fire:
  assumes "runOnService b now args None = Inr (b', r)"
  shows "\<exists>fnArgs.
     (case ui_args args of None \<Rightarrow> Inr [] | Some entries \<Rightarrow> encode_args (serializer b) entries)
        = Inr fnArgs
     \<and> r = None
     \<and> b' = b\<lparr>sink := sink b
                 @ [\<lparr>msg_method = ui_method args, msg_args = fnArgs, msg_id = None\<rparr>]\<rparr>"
  using assms
  by (auto simp: runOnService_def Let_def emit_def split: sum.splits)

lemma broker_inv_new: "broker_inv (new_ClientMessageBroker ser con)"
  by (simp add: broker_inv_def new_ClientMessageBroker_def)

lemma broker_inv_runOnService:
  assumes "broker_inv b" and "runOnService b now args returnType = Inr (b', r)"
  shows "broker_inv b'"
proof (cases returnType)
  case None
  with assms(2) obtain fnArgs where
    "b' = b\<lparr>sink := sink b @ [\<lparr>msg_method = ui_method args, msg_args = fnArgs, msg_id = None\<rparr>]\<rparr>"
    using runOnService_fire by blast
  with assms(1) show ?thesis by (simp add: broker_inv_def)
next
  case (Some rt)
  let ?X = "generateMessageId (pending b) (ui_method args) now"
  let ?p = "length (promises b)"
  from Some assms(2) obtain fnArgs where b':
    "b' = b\<lparr>promises := promises b
                 @ [\<lparr>promise_state = Pending, future_state = Pending, return_type = rt\<rparr>],
               pending := pending b @ [(?X, ?p)],
               sink := sink b
                 @ [\<lparr>msg_method = ui_method args, msg_args = fnArgs, msg_id = Some ?X\<rparr>]\<rparr>"
    using runOnService_call by blast
  have fresh: "?X \<notin> fst ` set (pending b)"
    using generateMessageId_fresh [of "pending b" "ui_method args" now]
    by (simp add: map_of_eq_None_iff)
  have new: "?p \<notin> snd ` set (pending b)"
    using assms(1) by (fastforce simp: broker_inv_def)
  have old: "\<forall>(k, p) \<in> set (pending b). p < ?p \<and> promise_state (promises b ! p) = Pending
      \<and> future_state (promises b ! p) = Pending"
    using assms(1) by (simp add: broker_inv_def)
  show ?thesis
    unfolding broker_inv_def b'
    using assms(1) fresh new old
    by (auto simp: broker_inv_def nth_append)
qed


text \<open>
  Settling one promise leaves the others and the size of the store as they are, so the
  handler keeps the invariant: it settles the completer of the entry it deletes.
\<close>

lemma length_promises_completer_resolve [simp]:
  "length (promises (completer_resolve p v b)) = length (promises b)"
  by (simp add: completer_resolve_def)

lemma length_promises_completer_reject [simp]:
  "length (promises (completer_reject p e b)) = length (promises b)"
  by (simp add: completer_reject_def catch_callback_def promise_reject_def console_log_def Let_def)

lemma promises_completer_resolve_other:
  "q \<noteq> p \<Longrightarrow> promises (completer_resolve p v b) ! q = promises b ! q"
  by (simp add: completer_resolve_def)

lemma promises_completer_reject_other:
  "q \<noteq> p \<Longrightarrow> promises (completer_reject p e b) ! q = promises b ! q"
  by (simp add: completer_reject_def catch_callback_def promise_reject_def console_log_def Let_def)

lemma broker_inv_handleMessage:
  assumes "broker_inv b" and "handleMessage b m = Inr b'"
  shows "broker_inv b'"
proof -
  have own: "map_of m ''hasOwnProperty'' = None"
    using assms(2) by (rule handleMessage_not_shadowed)
  let ?ident = "case map_of m ''id'' of Some v \<Rightarrow> v | None \<Rightarrow> JNull"
  let ?v = "case map_of m ''value'' of Some v \<Rightarrow> v | None \<Rightarrow> JNull"
  show ?thesis
  proof (cases "(get_property m ''type'' = JStr ''result'' \<or> get_property m ''type'' = JStr ''error'')
      \<and> map_get (pending b) ?ident \<noteq> None")
    case False
    then have "handleMessage b m = Inr b"
      using own by (auto simp: handleMessage_builtin)
    with assms show ?thesis by simp
  next
    case True
    then obtain p where p: "map_get (pending b) ?ident = Some p" by blast
    then obtain X where X: "?ident = JStr X" "map_of (pending b) X = Some p"
      by (auto simp: map_get_def split: jsval.splits)
    then have idX: "map_of m ''id'' = Some (JStr X)"
      by (auto split: option.splits)
    from X(2) have mem: "(X, p) \<in> set (pending b)" by (rule map_of_SomeD)
    with assms(1) have valid: "p < length (promises b)" "promise_state (promises b ! p) = Pending"
      by (auto simp: broker_inv_def)
    from True have ty: "get_property m ''type'' = JStr ''result'' \<or> get_property m ''type'' = JStr ''error''"
      by simp
    have b': "b' = (if get_property m ''type'' = JStr ''result''
           then completer_resolve p ?v b else completer_reject p ?v b)
          \<lparr>pending := AList.delete X (pending b)\<rparr>"
      using handleMessage_matched [OF own ty idX X(2)] assms(2) by simp
    have dk: "distinct (map fst (AList.delete X (pending b)))"
      using assms(1) by (simp add: broker_inv_def distinct_delete)
    have del: "AList.delete X (pending b) = filter (\<lambda>e. e \<noteq> (X, p)) (pending b)"
    proof -
      have "\<And>e. e \<in> set (pending b) \<Longrightarrow> (X \<noteq> fst e) = (e \<noteq> (X, p))"
        using assms(1) mem by (auto simp: broker_inv_def dest: eq_key_imp_eq_value)
      then have "filter (\<lambda>e. X \<noteq> fst e) (pending b) = filter (\<lambda>e. e \<noteq> (X, p)) (pending b)"
        by (intro filter_cong) auto
      then show ?thesis
        by (simp add: AList.delete_eq case_prod_unfold)
    qed
    have dv: "distinct (map snd (AList.delete X (pending b)))"
      using assms(1) by (simp add: del broker_inv_def distinct_map_filter)
    have inj: "inj_on snd (set (pending b))"
      using assms(1) by (simp add: broker_inv_def distinct_map)
    have others: "\<forall>(k, q) \<in> set (AList.delete X (pending b)).
        q \<noteq> p \<and> q < length (promises b) \<and> promise_state (promises b ! q) = Pending
        \<and> future_state (promises b ! q) = Pending"
    proof (clarify)
      fix k q assume "(k, q) \<in> set (AList.delete X (pending b))"
      then have in_b: "(k, q) \<in> set (pending b)" and ne: "(k, q) \<noteq> (X, p)"
        by (simp_all add: del)
      have "q \<noteq> p"
      proof
        assume "q = p"
        then have eq: "snd (k, q) = snd (X, p)" by simp
        from inj eq in_b mem have "(k, q) = (X, p)" by (rule inj_onD)
        with ne show False by simp
      qed
      moreover from assms(1) in_b have "q < length (promises b)
          \<and> promise_state (promises b ! q) = Pending \<and> future_state (promises b ! q) = Pending"
        by (auto simp: broker_inv_def)
      ultimately show "q \<noteq> p \<and> q < length (promises b)
          \<and> promise_state (promises b ! q) = Pending \<and> future_state (promises b ! q) = Pending"
        by simp
    qed
    define c where "c = (if get_property m ''type'' = JStr ''result''
           then completer_resolve p ?v b else completer_reject p ?v b)"
    have len: "length (promises c) = length (promises b)"
      by (simp add: c_def)
    have same: "\<And>q. q \<noteq> p \<Longrightarrow> promises c ! q = promises b ! q"
      by (simp add: c_def promises_completer_resolve_other promises_completer_reject_other)
    have "b' = c\<lparr>pending := AList.delete X (pending b)\<rparr>"
      using b' by (simp add: c_def)
    then show ?thesis
      unfolding broker_inv_def
      using dk dv others len same by auto
  qed
qed

text \<open>
  The states a broker reaches from its construction, by calls of \<open>runOnService\<close> and by
  inbound messages. An exception leaves the state as it was, so it is no step.
\<close>

inductive reachable :: "ClientMessageBroker \<Rightarrow> bool" where
  created: "reachable (new_ClientMessageBroker ser con)"
| called: "reachable b \<Longrightarrow> runOnService b now args returnType = Inr (b', r) \<Longrightarrow> reachable b'"
| delivered: "reachable b \<Longrightarrow> handleMessage b m = Inr b' \<Longrightarrow> reachable b'"

lemma reachable_broker_inv: "reachable b \<Longrightarrow> broker_inv b"
proof (induction rule: reachable.induct)
  case (created ser con)
  show ?case by (rule broker_inv_new)
next
  case (called b now args returnType b' r)
  then show ?case by (blast intro: broker_inv_runOnService)
next
  case (delivered b m b')
  then show ?case by (blast intro: broker_inv_handleMessage)
qed

subsection \<open>Two brokers with a call pending\<close>

text \<open>
  A serializer that wraps what it is given; the broker after the call \<open>foo(5 : Number)\<close>
  with return type \<open>String\<close> at clock reading 12, with that serializer and a console
  (\<open>example_pending\<close>); and the broker after the same call with an untagged argument,
  without a serializer and without a console (\<open>example_bare\<close>).
\<close>

definition example_serializer :: Serializer where
  "example_serializer =
     \<lparr>serialize = (\<lambda>v t. JObj [(''encoded'', v)]),
      deserialize = (\<lambda>v t. JObj [(''decoded'', v)])\<rparr>"

definition example_args :: UiArguments where
  "example_args =
     \<lparr>ui_method = ''foo'',
      ui_args = Some [\<lparr>arg_value = JNum 5, arg_type = Some (Class ''Number'')\<rparr>]\<rparr>"

definition example_pending :: ClientMessageBroker where
  "example_pending =
     \<lparr>pending = [(''foo120'', 0)],
      sink = [\<lparr>msg_method = ''foo'', msg_args = [JObj [(''encoded'', JNum 5)]],
               msg_id = Some ''foo120''\<rparr>],
      serializer = Some example_serializer,
      promises = [\<lparr>promise_state = Pending, future_state = Pending,
                   return_type = Class ''String''\<rparr>],
      console = Some []\<rparr>"

lemma stringify_12: "stringify 12 = ''12''"
  by (simp add: stringify_def decimal.simps digit_char_def)

lemma stringify_0: "stringify 0 = ''0''"
  by (simp add: stringify_def decimal.simps digit_char_def)

lemma generateMessageId_empty: "generateMessageId [] name now = name @ stringify now @ ''0''"
  by (simp add: generateMessageId_def generate_loop.simps map_has_def stringify_0)

lemma example_call:
  "runOnService (new_ClientMessageBroker (Some example_serializer) (Some [])) 12
      example_args (Some (Class ''String''))
   = Inr (example_pending, Some 0)"
  by (simp add: runOnService_def new_ClientMessageBroker_def example_args_def example_pending_def
      encode_arg_def call_serialize_def example_serializer_def generateMessageId_empty
      stringify_12 map_set_def emit_def Let_def)

lemma broker_inv_example: "broker_inv example_pending"
  by (simp add: broker_inv_def example_pending_def)

definition example_resolved :: ClientMessageBroker where
  "example_resolved =
     example_pending
       \<lparr>promises := [\<lparr>promise_state = Fulfilled (JNum 7), future_state = Fulfilled (JNum 7),
                      return_type = Class ''String''\<rparr>],
        pending := []\<rparr>"

definition example_bare :: ClientMessageBroker where
  "example_bare =
     \<lparr>pending = [(''foo120'', 0)],
      sink = [\<lparr>msg_method = ''foo'', msg_args = [JNum 5], msg_id = Some ''foo120''\<rparr>],
      serializer = None,
      promises = [\<lparr>promise_state = Pending, future_state = Pending,
                   return_type = Class ''String''\<rparr>],
      console = None\<rparr>"

lemma example_bare_call:
  "runOnService (new_ClientMessageBroker None None) 12
      \<lparr>ui_method = ''foo'', ui_args = Some [\<lparr>arg_value = JNum 5, arg_type = None\<rparr>]\<rparr>
      (Some (Class ''String''))
   = Inr (example_bare, Some 0)"
  by (simp add: runOnService_def new_ClientMessageBroker_def example_bare_def
      encode_arg_def generateMessageId_empty stringify_12 map_set_def emit_def Let_def)

lemma broker_inv_example_bare: "broker_inv example_bare"
  by (simp add: broker_inv_def example_bare_def)

subsection \<open>Encoding the arguments\<close>

text \<open>
  The \<open>forEach\<close> fills one slot per entry, in order. It throws only on an entry with a type
  tag when the broker holds no serializer.
\<close>

lemma encode_args_slots:
  "encode_args ser entries = Inr vs \<Longrightarrow>
     length vs = length entries
     \<and> (\<forall>i<length entries. encode_arg ser (entries ! i) = Inr (vs ! i))"
proof (induction entries arbitrary: vs)
  case Nil
  then show ?case by simp
next
  case (Cons a entries)
  from Cons.prems obtain v vs' where v: "encode_arg ser a = Inr v"
    and vs': "encode_args ser entries = Inr vs'" and vs: "vs = v # vs'"
    by (auto split: sum.splits)
  from Cons.IH [OF vs'] have ih: "length vs' = length entries"
    "\<forall>i<length entries. encode_arg ser (entries ! i) = Inr (vs' ! i)"
    by simp_all
  show ?case
  proof (intro conjI allI impI)
    show "length vs = length (a # entries)" using ih(1) vs by simp
  next
    fix i assume "i < length (a # entries)"
    then show "encode_arg ser ((a # entries) ! i) = Inr (vs ! i)"
      using v ih(2) vs by (cases i) simp_all
  qed
qed

lemma encode_args_total:
  "ser \<noteq> None \<or> (\<forall>a \<in> set entries. arg_type a = None) \<Longrightarrow>
     \<exists>vs. encode_args ser entries = Inr vs"
proof (induction entries)
  case Nil
  then show ?case by simp
next
  case (Cons a entries)
  then obtain vs where vs: "encode_args ser entries = Inr vs" by auto
  from Cons.prems have "\<exists>v. encode_arg ser a = Inr v"
    by (auto simp: encode_arg_def call_serialize_def split: option.splits)
  with vs show ?case by auto
qed

text \<open>
  Claim C5. For every list of argument entries, the message a call emits has an \<open>args\<close>
  array of the same length and order as the input: slot \<open>i\<close> is the serializer's
  \<open>serialize(value, type)\<close> when entry \<open>i\<close> carries a type tag, and the value as it is
  when the tag is \<open>null\<close>. A call emits its message whenever the broker has a
  serializer or no entry carries a tag.
\<close>

theorem arguments_encoded:
  "(ui_args args = Some entries \<longrightarrow>
      serializer b \<noteq> None \<or> (\<forall>a \<in> set entries. arg_type a = None) \<longrightarrow>
      (\<exists>b' r. runOnService b now args returnType = Inr (b', r)))
   \<and> (ui_args args = Some entries \<longrightarrow> runOnService b now args returnType = Inr (b', r) \<longrightarrow>
      (\<exists>message. sink b' = sink b @ [message]
         \<and> length (msg_args message) = length entries
         \<and> (\<forall>i<length entries.
               (arg_type (entries ! i) = None \<longrightarrow>
                  msg_args message ! i = arg_value (entries ! i))
               \<and> (\<forall>t. arg_type (entries ! i) = Some t \<longrightarrow>
                    (\<exists>s. serializer b = Some s
                       \<and> msg_args message ! i = serialize s (arg_value (entries ! i)) t)))))"
proof -
  have returns: "\<exists>b' r. runOnService b now args returnType = Inr (b', r)"
    if entries: "ui_args args = Some entries"
      and ok: "serializer b \<noteq> None \<or> (\<forall>a \<in> set entries. arg_type a = None)"
  proof -
    from ok obtain vs where "encode_args (serializer b) entries = Inr vs"
      using encode_args_total by blast
    with entries show ?thesis
      by (cases returnType) (simp_all add: runOnService_def Let_def)
  qed
  have slots: "\<exists>message. sink b' = sink b @ [message]
         \<and> length (msg_args message) = length entries
         \<and> (\<forall>i<length entries.
               (arg_type (entries ! i) = None \<longrightarrow>
                  msg_args message ! i = arg_value (entries ! i))
               \<and> (\<forall>t. arg_type (entries ! i) = Some t \<longrightarrow>
                    (\<exists>s. serializer b = Some s
                       \<and> msg_args message ! i = serialize s (arg_value (entries ! i)) t)))"
    if entries: "ui_args args = Some entries"
      and run: "runOnService b now args returnType = Inr (b', r)"
  proof -
    from run entries obtain fnArgs where enc: "encode_args (serializer b) entries = Inr fnArgs"
      and out: "\<exists>ident. sink b' = sink b
          @ [\<lparr>msg_method = ui_method args, msg_args = fnArgs, msg_id = ident\<rparr>]"
      by (cases returnType) (auto dest!: runOnService_call runOnService_fire)
    from out obtain message where m: "sink b' = sink b @ [message]" "msg_args message = fnArgs"
      by auto
    note enc_slots = encode_args_slots [OF enc]
    have "\<forall>i<length entries.
        (arg_type (entries ! i) = None \<longrightarrow> fnArgs ! i = arg_value (entries ! i))
        \<and> (\<forall>t. arg_type (entries ! i) = Some t \<longrightarrow>
             (\<exists>s. serializer b = Some s \<and> fnArgs ! i = serialize s (arg_value (entries ! i)) t))"
    proof (intro allI impI)
      fix i assume "i < length entries"
      with enc_slots have "encode_arg (serializer b) (entries ! i) = Inr (fnArgs ! i)" by simp
      then show "(arg_type (entries ! i) = None \<longrightarrow> fnArgs ! i = arg_value (entries ! i))
        \<and> (\<forall>t. arg_type (entries ! i) = Some t \<longrightarrow>
             (\<exists>s. serializer b = Some s \<and> fnArgs ! i = serialize s (arg_value (entries ! i)) t))"
        by (auto simp: encode_arg_def call_serialize_def split: option.splits)
    qed
    with m enc_slots show ?thesis by auto
  qed
  from returns slots show ?thesis by blast
qed

theorem arguments_encoded_witness:
  "ui_args example_args = Some [\<lparr>arg_value = JNum 5, arg_type = Some (Class ''Number'')\<rparr>]
   \<and> runOnService (new_ClientMessageBroker (Some example_serializer) (Some [])) 12
        example_args (Some (Class ''String''))
      = Inr (example_pending, Some 0)
   \<and> msg_args (last (sink example_pending)) = [serialize example_serializer (JNum 5) (Class ''Number'')]"
  using arguments_encoded [of example_args
      "[\<lparr>arg_value = JNum 5, arg_type = Some (Class ''Number'')\<rparr>]"
      "new_ClientMessageBroker (Some example_serializer) (Some [])" 12 "Some (Class ''String'')"
      example_pending "Some 0"]
  by (simp add: example_call) (simp add: example_args_def example_pending_def example_serializer_def)

text \<open>
  Claim C9. For every call whose \<open>UiArguments\<close> has no \<open>args\<close> array, with or without a
  return type and whatever the serializer, \<open>runOnService\<close> does not throw and the \<open>args\<close>
  of the emitted message is the empty array.
\<close>

theorem missing_args_emit_empty:
  "\<exists>b' r message. runOnService b now \<lparr>ui_method = name, ui_args = None\<rparr> returnType = Inr (b', r)
     \<and> sink b' = sink b @ [message]
     \<and> msg_method message = name
     \<and> msg_args message = []"
  by (cases returnType) (simp_all add: runOnService_def Let_def emit_def)

theorem missing_args_emit_empty_witness:
  "\<exists>b' r message.
     runOnService (new_ClientMessageBroker None None) 12 \<lparr>ui_method = ''foo'', ui_args = None\<rparr>
        (Some (Class ''String'')) = Inr (b', r)
     \<and> sink b' = sink (new_ClientMessageBroker None None) @ [message]
     \<and> msg_method message = ''foo''
     \<and> msg_args message = []"
  by (rule missing_args_emit_empty)

text \<open>
  Claim C4, as stated, fails: on a broker without a serializer, a call with
  \<open>returnType = null\<close> and an argument that carries a type tag throws; it returns nothing
  and emits nothing.
\<close>

theorem fire_and_forget_counterexample:
  "runOnService (new_ClientMessageBroker None None) 12 example_args None = Inl TypeError"
  by (simp add: runOnService_def new_ClientMessageBroker_def example_args_def encode_arg_def
      call_serialize_def)

text \<open>
  Claim C4, amended. For every call with \<open>returnType = null\<close> on a broker that has a
  serializer, or whose arguments carry no type tag, \<open>runOnService\<close> returns \<open>null\<close>; and
  whenever such a call returns, it has returned \<open>null\<close>, added no entry to the pending
  table, made no promise, and emitted exactly \<open>{method, args}\<close> with no \<open>id\<close>. In
  particular \<open>call({method: "foo", args: [{value: 5, type: null}]}, null)\<close> emits
  \<open>{method: "foo", args: [5]}\<close>, on every broker.
\<close>

theorem fire_and_forget:
  "(serializer b \<noteq> None \<or> (\<forall>a \<in> set (case ui_args args of None \<Rightarrow> [] | Some entries \<Rightarrow> entries).
        arg_type a = None) \<longrightarrow>
      (\<exists>fnArgs.
         (case ui_args args of None \<Rightarrow> Inr [] | Some entries \<Rightarrow> encode_args (serializer b) entries)
           = Inr fnArgs
         \<and> runOnService b now args None
           = Inr (b\<lparr>sink := sink b
                     @ [\<lparr>msg_method = ui_method args, msg_args = fnArgs, msg_id = None\<rparr>]\<rparr>, None)))
   \<and> (runOnService b now args None = Inr (b', r) \<longrightarrow>
        r = None \<and> pending b' = pending b \<and> promises b' = promises b
        \<and> (\<exists>fnArgs.
              (case ui_args args of None \<Rightarrow> Inr [] | Some entries \<Rightarrow> encode_args (serializer b) entries)
                = Inr fnArgs
              \<and> sink b' = sink b
                @ [\<lparr>msg_method = ui_method args, msg_args = fnArgs, msg_id = None\<rparr>]))
   \<and> runOnService b now
        \<lparr>ui_method = ''foo'', ui_args = Some [\<lparr>arg_value = JNum 5, arg_type = None\<rparr>]\<rparr> None
      = Inr (b\<lparr>sink := sink b
                @ [\<lparr>msg_method = ''foo'', msg_args = [JNum 5], msg_id = None\<rparr>]\<rparr>, None)"
proof -
  let ?encoded = "case ui_args args of None \<Rightarrow> Inr []
    | Some entries \<Rightarrow> encode_args (serializer b) entries"
  have returns: "\<exists>fnArgs. ?encoded = Inr fnArgs
         \<and> runOnService b now args None
           = Inr (b\<lparr>sink := sink b
                     @ [\<lparr>msg_method = ui_method args, msg_args = fnArgs, msg_id = None\<rparr>]\<rparr>, None)"
    if ok: "serializer b \<noteq> None
      \<or> (\<forall>a \<in> set (case ui_args args of None \<Rightarrow> [] | Some entries \<Rightarrow> entries). arg_type a = None)"
  proof -
    have "\<exists>fnArgs. ?encoded = Inr fnArgs"
    proof (cases "ui_args args")
      case None
      then show ?thesis by simp
    next
      case (Some entries)
      with ok show ?thesis using encode_args_total [of "serializer b" entries] by simp
    qed
    then obtain fnArgs where enc: "?encoded = Inr fnArgs" by blast
    then have "runOnService b now args None
           = Inr (b\<lparr>sink := sink b
                     @ [\<lparr>msg_method = ui_method args, msg_args = fnArgs, msg_id = None\<rparr>]\<rparr>, None)"
      by (simp add: runOnService_def Let_def emit_def)
    with enc show ?thesis by blast
  qed
  have effect: "r = None \<and> pending b' = pending b \<and> promises b' = promises b
        \<and> (\<exists>fnArgs. ?encoded = Inr fnArgs
              \<and> sink b' = sink b
                @ [\<lparr>msg_method = ui_method args, msg_args = fnArgs, msg_id = None\<rparr>])"
    if run: "runOnService b now args None = Inr (b', r)"
  proof -
    from runOnService_fire [OF run] obtain fnArgs where enc: "?encoded = Inr fnArgs"
      and r: "r = None"
      and b': "b' = b\<lparr>sink := sink b
                 @ [\<lparr>msg_method = ui_method args, msg_args = fnArgs, msg_id = None\<rparr>]\<rparr>"
      by blast
    from b' have "pending b' = pending b" "promises b' = promises b"
      "sink b' = sink b @ [\<lparr>msg_method = ui_method args, msg_args = fnArgs, msg_id = None\<rparr>]"
      by simp_all
    with r enc show ?thesis by blast
  qed
  have example: "runOnService b now
        \<lparr>ui_method = ''foo'', ui_args = Some [\<lparr>arg_value = JNum 5, arg_type = None\<rparr>]\<rparr> None
      = Inr (b\<lparr>sink := sink b
                @ [\<lparr>msg_method = ''foo'', msg_args = [JNum 5], msg_id = None\<rparr>]\<rparr>, None)"
    by (simp add: runOnService_def Let_def emit_def encode_arg_def)
  from returns effect example show ?thesis by blast
qed

theorem fire_and_forget_witness:
  "runOnService example_pending 12
        \<lparr>ui_method = ''foo'', ui_args = Some [\<lparr>arg_value = JNum 5, arg_type = None\<rparr>]\<rparr> None
      = Inr (example_pending\<lparr>sink := sink example_pending
                @ [\<lparr>msg_method = ''foo'', msg_args = [JNum 5], msg_id = None\<rparr>]\<rparr>, None)
   \<and> serializer example_pending \<noteq> None
   \<and> runOnService example_pending 12 example_args None
       = Inr (example_pending\<lparr>sink := sink example_pending
                 @ [\<lparr>msg_method = ''foo'', msg_args = [JObj [(''encoded'', JNum 5)]],
                      msg_id = None\<rparr>]\<rparr>, None)"
  using fire_and_forget [of example_pending example_args 12]
  by (simp add: example_pending_def example_args_def encode_arg_def call_serialize_def
      example_serializer_def)

text \<open>
  The calls left out of C4: without a serializer, a call with an argument that carries a
  type tag throws before it emits anything, with or without a return type.
\<close>

theorem tagged_argument_needs_serializer:
  assumes "serializer b = None" and "ui_args args = Some entries"
    and "\<exists>a \<in> set entries. arg_type a \<noteq> None"
  shows "runOnService b now args returnType = Inl TypeError"
proof -
  have "encode_args None entries = Inl TypeError"
    using assms(3)
  proof (induction entries)
    case Nil
    then show ?case by simp
  next
    case (Cons a entries)
    show ?case
    proof (cases "arg_type a")
      case (Some t)
      then show ?thesis by (simp add: encode_arg_def call_serialize_def)
    next
      case None
      with Cons.prems have "\<exists>a \<in> set entries. arg_type a \<noteq> None" by auto
      with Cons.IH None show ?thesis by (simp add: encode_arg_def)
    qed
  qed
  with assms(1,2) show ?thesis by (simp add: runOnService_def)
qed

theorem tagged_argument_needs_serializer_witness:
  "serializer (new_ClientMessageBroker None None) = None
   \<and> runOnService (new_ClientMessageBroker None None) 12 example_args (Some (Class ''String''))
     = Inl TypeError"
  using tagged_argument_needs_serializer [of "new_ClientMessageBroker None None" example_args
      "[\<lparr>arg_value = JNum 5, arg_type = Some (Class ''Number'')\<rparr>]" 12 "Some (Class ''String'')"]
  by (simp add: new_ClientMessageBroker_def example_args_def)

subsection \<open>Responses\<close>

text \<open>
  What a \<open>result\<close> and an \<open>error\<close> message do for an id that is pending, in a state that
  satisfies the invariant.
\<close>

lemma handleMessage_result:
  assumes "broker_inv b" and "map_of (pending b) X = Some p"
  shows "handleMessage b [(''type'', JStr ''result''), (''id'', JStr X), (''value'', V)]
     = Inr (b\<lparr>promises := (promises b)
               [p := (promises b ! p)
                  \<lparr>promise_state := Fulfilled V,
                   future_state :=
                     (case serializer b of
                        Some s \<Rightarrow> Fulfilled V
                      | None \<Rightarrow> Rejected (Thrown TypeError))\<rparr>],
             pending := AList.delete X (pending b)\<rparr>)"
proof -
  let ?m = "[(''type'', JStr ''result''), (''id'', JStr X), (''value'', V)]"
  from assms(2) have "(X, p) \<in> set (pending b)" by (rule map_of_SomeD)
  with assms(1) have valid: "p < length (promises b)" "promise_state (promises b ! p) = Pending"
    by (auto simp: broker_inv_def)
  have "handleMessage b ?m = Inr ((completer_resolve p V b)\<lparr>pending := AList.delete X (pending b)\<rparr>)"
    using handleMessage_matched [of ?m X b p] assms(2) by (simp add: get_property_def)
  then show ?thesis
    by (simp add: completer_resolve_pending [OF valid])
qed

lemma handleMessage_error:
  assumes "broker_inv b" and "map_of (pending b) X = Some p"
  shows "handleMessage b [(''type'', JStr ''error''), (''id'', JStr X), (''value'', E)]
     = Inr (b\<lparr>promises := (promises b)
               [p := (promises b ! p)
                  \<lparr>promise_state := Rejected (Reason E), future_state := Rejected (Reason E)\<rparr>],
             console := map_option (\<lambda>printed. printed @ [E]) (console b),
             pending := AList.delete X (pending b)\<rparr>)"
proof -
  let ?m = "[(''type'', JStr ''error''), (''id'', JStr X), (''value'', E)]"
  from assms(2) have "(X, p) \<in> set (pending b)" by (rule map_of_SomeD)
  with assms(1) have valid: "p < length (promises b)" "promise_state (promises b ! p) = Pending"
    by (auto simp: broker_inv_def)
  have "handleMessage b ?m = Inr ((completer_reject p E b)\<lparr>pending := AList.delete X (pending b)\<rparr>)"
    using handleMessage_matched [of ?m X b p] assms(2) by (simp add: get_property_def)
  then show ?thesis
    by (simp add: completer_reject_pending [OF valid])
qed

lemma example_result:
  "handleMessage example_pending
      [(''type'', JStr ''result''), (''id'', JStr ''foo120''), (''value'', JNum 7)]
   = Inr example_resolved"
proof -
  have key: "map_of (pending example_pending) ''foo120'' = Some 0"
    by (simp add: example_pending_def)
  show ?thesis
    by (simp add: handleMessage_result [OF broker_inv_example key])
       (simp add: example_pending_def example_resolved_def)
qed

text \<open>
  Claim C6. For every pending id \<open>X\<close>, with completer \<open>p\<close>, handling
  \<open>{type: "error", id: X, value: E}\<close> rejects the future returned for \<open>X\<close> with \<open>E\<close>
  itself and removes \<open>X\<close> from the pending table. The other entries, the other promises
  and the sink stay as they are. The rejection is logged: \<open>E\<close> is appended to what
  \<open>console.log\<close> has printed (where there is a \<open>console.log\<close>), and the future is
  rejected all the same. The future returned for \<open>X\<close> is the one at the address the
  table holds for \<open>X\<close>: \<open>runOnService\<close> returns the address it stores
  (\<open>runOnService_call\<close>).
\<close>

theorem error_rejects_future:
  assumes "broker_inv b" and "map_of (pending b) X = Some p"
  shows "\<exists>b'. handleMessage b [(''type'', JStr ''error''), (''id'', JStr X), (''value'', E)] = Inr b'
     \<and> future_state (promises b' ! p) = Rejected (Reason E)
     \<and> promise_state (promises b' ! p) = Rejected (Reason E)
     \<and> map_of (pending b') X = None
     \<and> (\<forall>k. k \<noteq> X \<longrightarrow> map_of (pending b') k = map_of (pending b) k)
     \<and> (\<forall>q. q \<noteq> p \<longrightarrow> promises b' ! q = promises b ! q)
     \<and> console b' = map_option (\<lambda>printed. printed @ [E]) (console b)
     \<and> sink b' = sink b
     \<and> broker_inv b'"
proof -
  let ?m = "[(''type'', JStr ''error''), (''id'', JStr X), (''value'', E)]"
  from assms(2) have "(X, p) \<in> set (pending b)" by (rule map_of_SomeD)
  with assms(1) have valid: "p < length (promises b)"
    by (auto simp: broker_inv_def)
  note step = handleMessage_error [OF assms, of E]
  have inv: "\<And>b'. handleMessage b ?m = Inr b' \<Longrightarrow> broker_inv b'"
    using assms(1) by (rule broker_inv_handleMessage)
  show ?thesis
    using valid inv [OF step] by (simp add: step delete_conv')
qed

theorem error_rejects_future_witness:
  "broker_inv example_pending \<and> map_of (pending example_pending) ''foo120'' = Some 0
   \<and> handleMessage example_pending
        [(''type'', JStr ''error''), (''id'', JStr ''foo120''), (''value'', JStr ''boom'')]
      = Inr (example_pending
          \<lparr>promises := [\<lparr>promise_state = Rejected (Reason (JStr ''boom'')),
                         future_state = Rejected (Reason (JStr ''boom'')),
                         return_type = Class ''String''\<rparr>],
            console := Some [JStr ''boom''],
            pending := []\<rparr>)"
proof -
  have inv: "broker_inv example_pending" by (rule broker_inv_example)
  have key: "map_of (pending example_pending) ''foo120'' = Some 0"
    by (simp add: example_pending_def)
  from error_rejects_future [OF inv key, of "JStr ''boom''"] obtain b' where
    b': "handleMessage example_pending
        [(''type'', JStr ''error''), (''id'', JStr ''foo120''), (''value'', JStr ''boom'')] = Inr b'"
    by blast
  have "b' = example_pending
          \<lparr>promises := [\<lparr>promise_state = Rejected (Reason (JStr ''boom'')),
                         future_state = Rejected (Reason (JStr ''boom'')),
                         return_type = Class ''String''\<rparr>],
            console := Some [JStr ''boom''],
            pending := []\<rparr>"
    using b' by (simp add: handleMessage_error [OF inv key]) (simp add: example_pending_def)
  with inv key b' show ?thesis by simp
qed

text \<open>
  Claim C1 fails on the code. With a serializer configured, the future of a call is
  fulfilled with the value \<open>V\<close> of the \<open>result\<close> message as it came, not with
  \<open>deserialize(V, returnType)\<close>: the condition of the \<open>then\<close> callback is inverted. Without
  a serializer the callback calls \<open>deserialize\<close> on \<open>null\<close>, so the future is rejected
  with a TypeError instead of being fulfilled with \<open>V\<close>. In both cases the id is removed
  from the pending table. Here: the call \<open>foo\<close> at clock reading 12, then
  \<open>{type: "result", id: "foo120", value: 7}\<close>.
\<close>

theorem result_not_decoded:
  "(runOnService (new_ClientMessageBroker (Some example_serializer) (Some [])) 12
      example_args (Some (Class ''String''))
     = Inr (example_pending, Some 0)
   \<and> handleMessage example_pending
        [(''type'', JStr ''result''), (''id'', JStr ''foo120''), (''value'', JNum 7)]
     = Inr example_resolved
   \<and> future_state (promises example_resolved ! 0) = Fulfilled (JNum 7)
   \<and> deserialize example_serializer (JNum 7) (Class ''String'') = JObj [(''decoded'', JNum 7)]
   \<and> pending example_resolved = [])
   \<and> (runOnService (new_ClientMessageBroker None None) 12
      \<lparr>ui_method = ''foo'', ui_args = Some [\<lparr>arg_value = JNum 5, arg_type = None\<rparr>]\<rparr>
      (Some (Class ''String''))
     = Inr (example_bare, Some 0)
   \<and> handleMessage example_bare
        [(''type'', JStr ''result''), (''id'', JStr ''foo120''), (''value'', JNum 7)]
     = Inr (example_bare
         \<lparr>promises := [\<lparr>promise_state = Fulfilled (JNum 7),
                        future_state = Rejected (Thrown TypeError),
                        return_type = Class ''String''\<rparr>],
           pending := []\<rparr>))"
proof -
  have key: "map_of (pending example_bare) ''foo120'' = Some 0"
    by (simp add: example_bare_def)
  have with_serializer: "future_state (promises example_resolved ! 0) = Fulfilled (JNum 7)
      \<and> deserialize example_serializer (JNum 7) (Class ''String'') = JObj [(''decoded'', JNum 7)]
      \<and> pending example_resolved = []"
    by (simp add: example_resolved_def example_pending_def example_serializer_def)
  have without: "handleMessage example_bare
        [(''type'', JStr ''result''), (''id'', JStr ''foo120''), (''value'', JNum 7)]
     = Inr (example_bare
         \<lparr>promises := [\<lparr>promise_state = Fulfilled (JNum 7),
                        future_state = Rejected (Thrown TypeError),
                        return_type = Class ''String''\<rparr>],
           pending := []\<rparr>)"
    by (simp add: handleMessage_result [OF broker_inv_example_bare key])
       (simp add: example_bare_def)
  from with_serializer without show ?thesis
    by (simp add: example_call example_result example_bare_call)
qed

text \<open>
  What a \<open>result\<close> message does in general, for an id \<open>X\<close> pending with completer \<open>p\<close>:
  the promise is fulfilled with \<open>V\<close>; the future is fulfilled with \<open>V\<close> as it came when
  the broker has a serializer, and rejected with a TypeError when it has none; \<open>X\<close>
  leaves the pending table and nothing is logged.
\<close>

theorem result_settles_future:
  assumes "broker_inv b" and "map_of (pending b) X = Some p"
  shows "\<exists>b'. handleMessage b [(''type'', JStr ''result''), (''id'', JStr X), (''value'', V)] = Inr b'
     \<and> promise_state (promises b' ! p) = Fulfilled V
     \<and> future_state (promises b' ! p)
         = (case serializer b of Some s \<Rightarrow> Fulfilled V | None \<Rightarrow> Rejected (Thrown TypeError))
     \<and> map_of (pending b') X = None
     \<and> console b' = console b
     \<and> sink b' = sink b
     \<and> broker_inv b'"
proof -
  let ?m = "[(''type'', JStr ''result''), (''id'', JStr X), (''value'', V)]"
  from assms(2) have "(X, p) \<in> set (pending b)" by (rule map_of_SomeD)
  with assms(1) have valid: "p < length (promises b)"
    by (auto simp: broker_inv_def)
  note step = handleMessage_result [OF assms, of V]
  have inv: "\<And>b'. handleMessage b ?m = Inr b' \<Longrightarrow> broker_inv b'"
    using assms(1) by (rule broker_inv_handleMessage)
  show ?thesis
    using valid inv [OF step] by (simp add: step delete_conv')
qed

theorem result_settles_future_witness:
  "broker_inv example_bare \<and> map_of (pending example_bare) ''foo120'' = Some 0
   \<and> serializer example_bare = None
   \<and> (\<exists>b'. handleMessage example_bare
          [(''type'', JStr ''result''), (''id'', JStr ''foo120''), (''value'', JNum 7)] = Inr b'
        \<and> future_state (promises b' ! 0) = Rejected (Thrown TypeError))"
proof -
  have inv: "broker_inv example_bare" by (rule broker_inv_example_bare)
  have key: "map_of (pending example_bare) ''foo120'' = Some 0"
    by (simp add: example_bare_def)
  have ser: "serializer example_bare = None" by (simp add: example_bare_def)
  from result_settles_future [OF inv key, of "JNum 7"] inv key ser show ?thesis
    by auto
qed

text \<open>
  A call with a return type returns the promise it has just made, and stores its address
  under the id it emits, which was not pending before.
\<close>

theorem returned_future_registered:
  assumes "runOnService b now args (Some rt) = Inr (b', r)"
  shows "\<exists>X p. r = Some p \<and> p = length (promises b)
     \<and> X = generateMessageId (pending b) (ui_method args) now
     \<and> map_of (pending b) X = None
     \<and> map_of (pending b') X = Some p
     \<and> msg_id (last (sink b')) = Some X
     \<and> promise_state (promises b' ! p) = Pending
     \<and> future_state (promises b' ! p) = Pending
     \<and> return_type (promises b' ! p) = rt"
proof -
  let ?X = "generateMessageId (pending b) (ui_method args) now"
  from runOnService_call [OF assms] obtain fnArgs where
    r: "r = Some (length (promises b))" and
    b': "b' = b\<lparr>promises := promises b
                 @ [\<lparr>promise_state = Pending, future_state = Pending, return_type = rt\<rparr>],
               pending := pending b @ [(?X, length (promises b))],
               sink := sink b
                 @ [\<lparr>msg_method = ui_method args, msg_args = fnArgs, msg_id = Some ?X\<rparr>]\<rparr>"
    by blast
  have fresh: "map_of (pending b) ?X = None" by (rule generateMessageId_fresh)
  then have "map_of (pending b') ?X = Some (length (promises b))"
    by (simp add: b' map_add_def)
  with r fresh show ?thesis by (simp add: b')
qed

theorem returned_future_registered_witness:
  "runOnService (new_ClientMessageBroker (Some example_serializer) (Some [])) 12
      example_args (Some (Class ''String'')) = Inr (example_pending, Some 0)
   \<and> map_of (pending example_pending) ''foo120'' = Some 0
   \<and> msg_id (last (sink example_pending)) = Some ''foo120''"
  using returned_future_registered [OF example_call]
  by (simp add: example_call) (simp add: example_pending_def)

text \<open>The invariant holds in every state a broker reaches.\<close>

theorem reachable_states_well_formed: "reachable b \<Longrightarrow> broker_inv b"
  by (rule reachable_broker_inv)

theorem reachable_states_well_formed_witness:
  "reachable example_pending \<and> broker_inv example_pending"
proof -
  have "reachable (new_ClientMessageBroker (Some example_serializer) (Some []))"
    by (rule reachable.created)
  then have r: "reachable example_pending"
    using example_call by (rule reachable.called)
  with reachable_states_well_formed [OF r] show ?thesis by simp
qed

text \<open>
  Claim C7 fails on the code. A message whose type is neither \<open>result\<close> nor \<open>error\<close> is
  to be ignored without a fault, but the handler parses the message before it looks at
  the type, and \<open>_getValueIfPresent\<close> calls \<open>hasOwnProperty\<close> on the message itself:
  on \<open>{type: "ping", hasOwnProperty: 1}\<close> the handler throws a TypeError, where the
  comment of \<open>_getValueIfPresent\<close> promises \<open>null\<close> for a key that is not present.
\<close>

theorem foreign_message_throws:
  "handleMessage example_pending [(''type'', JStr ''ping''), (''hasOwnProperty'', JNum 1)]
   = Inl TypeError"
  by (simp add: handleMessage_def new_MessageData_shadowed)

text \<open>
  What holds instead: every message that has no own property named \<open>hasOwnProperty\<close>,
  and whose type is neither \<open>result\<close> nor \<open>error\<close>, or whose id (an absent id and an id
  that is not a string included) has no entry in the pending table, is ignored: handling
  it throws nothing and leaves the broker as it is, the pending table, every promise,
  the sink and the console.
\<close>

theorem plain_message_ignored:
  assumes "map_of m ''hasOwnProperty'' = None"
    and "(get_property m ''type'' \<noteq> JStr ''result'' \<and> get_property m ''type'' \<noteq> JStr ''error'')
         \<or> (\<forall>k. map_of m ''id'' = Some (JStr k) \<longrightarrow> map_of (pending b) k = None)"
  shows "handleMessage b m = Inr b"
  using assms by (rule handleMessage_unmatched)

theorem plain_message_ignored_witness:
  "handleMessage example_pending
      [(''type'', JStr ''result''), (''id'', JStr ''nonexistent''), (''value'', JNum 7)]
     = Inr example_pending
   \<and> handleMessage example_pending [(''type'', JStr ''ping'')] = Inr example_pending
   \<and> handleMessage example_pending [(''type'', JStr ''error'')] = Inr example_pending
   \<and> pending example_pending = [(''foo120'', 0)]"
  using plain_message_ignored [of
      "[(''type'', JStr ''result''), (''id'', JStr ''nonexistent''), (''value'', JNum 7)]"
      example_pending]
    plain_message_ignored [of "[(''type'', JStr ''ping'')]" example_pending]
    plain_message_ignored [of "[(''type'', JStr ''error'')]" example_pending]
  by (simp add: get_property_def example_pending_def)

text \<open>And every message that has such a property makes the handler throw.\<close>

theorem shadowed_message_throws:
  "map_of m ''hasOwnProperty'' = Some f \<Longrightarrow> handleMessage b m = Inl TypeError"
  by (simp add: handleMessage_def new_MessageData_shadowed)

theorem shadowed_message_throws_witness:
  "map_of [(''type'', JStr ''result''), (''id'', JStr ''foo120''), (''hasOwnProperty'', JNum 1)]
      ''hasOwnProperty'' = Some (JNum 1)
   \<and> handleMessage example_resolved
        [(''type'', JStr ''result''), (''id'', JStr ''foo120''), (''hasOwnProperty'', JNum 1)]
     = Inl TypeError"
  using shadowed_message_throws [of
      "[(''type'', JStr ''result''), (''id'', JStr ''foo120''), (''hasOwnProperty'', JNum 1)]"
      "JNum 1" example_resolved]
  by simp

subsection \<open>At most one resolution per id\<close>

text \<open>
  Claim C3 fails on the code. Once a \<open>result\<close> or \<open>error\<close> message carrying the id \<open>X\<close>
  has been handled, \<open>X\<close> is out of the pending table, and a second message with the same
  id is to have no effect and raise no exception. The handler settles no promise twice,
  but it parses the second message before it looks at the table, and
  \<open>_getValueIfPresent\<close> calls \<open>hasOwnProperty\<close> on the message itself: after the call
  \<open>foo\<close> at clock reading 12 and its result \<open>{type: "result", id: "foo120", value: 7}\<close>,
  the second message \<open>{type: "result", id: "foo120", hasOwnProperty: 1}\<close> makes the
  handler throw a TypeError, where the comment of \<open>_getValueIfPresent\<close> promises \<open>null\<close>
  for a key that is not present.
\<close>

theorem second_message_throws:
  "runOnService (new_ClientMessageBroker (Some example_serializer) (Some [])) 12
      example_args (Some (Class ''String''))
     = Inr (example_pending, Some 0)
   \<and> handleMessage example_pending
        [(''type'', JStr ''result''), (''id'', JStr ''foo120''), (''value'', JNum 7)]
     = Inr example_resolved
   \<and> map_of (pending example_resolved) ''foo120'' = None
   \<and> handleMessage example_resolved
        [(''type'', JStr ''result''), (''id'', JStr ''foo120''), (''hasOwnProperty'', JNum 1)]
     = Inl TypeError"
proof -
  have gone: "map_of (pending example_resolved) ''foo120'' = None"
    by (simp add: example_resolved_def)
  have thrown: "handleMessage example_resolved
        [(''type'', JStr ''result''), (''id'', JStr ''foo120''), (''hasOwnProperty'', JNum 1)]
     = Inl TypeError"
    by (simp add: handleMessage_def new_MessageData_shadowed)
  from gone thrown show ?thesis
    by (simp add: example_call example_result)
qed

text \<open>
  What holds instead, for messages that have no own property named \<open>hasOwnProperty\<close>:
  a \<open>result\<close> or \<open>error\<close> message carrying the id \<open>X\<close>, pending or not, is handled
  without a fault, and once it has been handled \<open>X\<close> is not in the pending table;
  handling a second message with the same id \<open>X\<close>, whatever its type, its value and its
  other fields, throws nothing and leaves the broker as it is: the pending table, every
  promise (so none is settled twice), the sink and the console.
\<close>

theorem later_message_ignored:
  assumes "map_of first ''hasOwnProperty'' = None"
    and "get_property first ''type'' = JStr ''result'' \<or> get_property first ''type'' = JStr ''error''"
    and "map_of first ''id'' = Some (JStr X)"
  shows "\<exists>b1. handleMessage b first = Inr b1
     \<and> map_of (pending b1) X = None
     \<and> (\<forall>second. map_of second ''hasOwnProperty'' = None \<longrightarrow>
            map_of second ''id'' = Some (JStr X) \<longrightarrow>
            handleMessage b1 second = Inr b1)"
proof -
  have "\<exists>b1. handleMessage b first = Inr b1"
  proof (cases "map_of (pending b) X")
    case None
    with assms(1,3) have "handleMessage b first = Inr b"
      by (intro handleMessage_unmatched) auto
    then show ?thesis by blast
  next
    case (Some p)
    from handleMessage_matched [OF assms Some] show ?thesis by blast
  qed
  then obtain b1 where handled: "handleMessage b first = Inr b1" by blast
  from handled assms(2,3) have gone: "map_of (pending b1) X = None"
    by (rule handleMessage_removes)
  have "handleMessage b1 second = Inr b1"
    if "map_of second ''hasOwnProperty'' = None" and "map_of second ''id'' = Some (JStr X)"
    for second
    using that gone by (intro handleMessage_unmatched) auto
  with handled gone show ?thesis by blast
qed

theorem later_message_ignored_witness:
  "handleMessage example_pending
      [(''type'', JStr ''result''), (''id'', JStr ''foo120''), (''value'', JNum 7)]
     = Inr example_resolved
   \<and> map_of (pending example_pending) ''foo120'' = Some 0
   \<and> map_of (pending example_resolved) ''foo120'' = None
   \<and> handleMessage example_resolved
        [(''type'', JStr ''error''), (''id'', JStr ''foo120''), (''value'', JStr ''late'')]
     = Inr example_resolved
   \<and> handleMessage example_resolved
        [(''type'', JStr ''result''), (''id'', JStr ''foo120''), (''value'', JNum 7),
         (''channel'', JStr ''ui'')]
     = Inr example_resolved"
proof -
  let ?first = "[(''type'', JStr ''result''), (''id'', JStr ''foo120''), (''value'', JNum 7)]"
  have first: "handleMessage example_pending ?first = Inr example_resolved"
    by (rule example_result)
  from later_message_ignored [of ?first "''foo120''" example_pending]
  have later: "\<forall>second. map_of second ''hasOwnProperty'' = None \<longrightarrow>
      map_of second ''id'' = Some (JStr ''foo120'') \<longrightarrow>
      handleMessage example_resolved second = Inr example_resolved"
    by (simp add: first get_property_def)
  have a: "handleMessage example_resolved
        [(''type'', JStr ''error''), (''id'', JStr ''foo120''), (''value'', JStr ''late'')]
     = Inr example_resolved"
    using later by simp
  have c: "handleMessage example_resolved
        [(''type'', JStr ''result''), (''id'', JStr ''foo120''), (''value'', JNum 7),
         (''channel'', JStr ''ui'')]
     = Inr example_resolved"
    using later by simp
  from first a c show ?thesis
    by (simp add: example_pending_def example_resolved_def)
qed

subsection \<open>Calls issued before any response\<close>

text \<open>
  A sequence of calls with return types, each at its own clock reading, with no inbound
  message in between. The result is the broker after the last call and the ids of the
  messages emitted, in order. A call that throws leaves the broker as it was and emits
  nothing.
\<close>

fun issue_calls ::
  "ClientMessageBroker \<Rightarrow> (int \<times> UiArguments \<times> Type) list \<Rightarrow> ClientMessageBroker \<times> string list" where
  "issue_calls b [] = (b, [])"
| "issue_calls b ((now, args, rt) # calls) =
     (case runOnService b now args (Some rt) of
        Inl e \<Rightarrow> issue_calls b calls
      | Inr (b1, r) \<Rightarrow>
          (case issue_calls b1 calls of
             (b2, ids) \<Rightarrow>
               (case msg_id (last (sink b1)) of
                  Some ident \<Rightarrow> (b2, ident # ids)
                | None \<Rightarrow> (b2, ids))))"

lemma issue_calls_keys:
  "issue_calls b calls = (b', ids) \<Longrightarrow>
     map fst (pending b') = map fst (pending b) @ ids \<and> serializer b' = serializer b"
proof (induction calls arbitrary: b b' ids)
  case Nil
  then show ?case by simp
next
  case (Cons c calls)
  obtain now args rt where c: "c = (now, args, rt)" by (cases c)
  show ?case
  proof (cases "runOnService b now args (Some rt)")
    case (Inl e)
    with Cons.prems c have "issue_calls b calls = (b', ids)" by simp
    then show ?thesis by (rule Cons.IH)
  next
    case (Inr res)
    obtain b1 r where res: "res = (b1, r)" by (cases res)
    let ?X = "generateMessageId (pending b) (ui_method args) now"
    from Inr res obtain fnArgs where b1:
      "b1 = b\<lparr>promises := promises b
                 @ [\<lparr>promise_state = Pending, future_state = Pending, return_type = rt\<rparr>],
               pending := pending b @ [(?X, length (promises b))],
               sink := sink b
                 @ [\<lparr>msg_method = ui_method args, msg_args = fnArgs, msg_id = Some ?X\<rparr>]\<rparr>"
      using runOnService_call by blast
    obtain b2 ids' where rest: "issue_calls b1 calls = (b2, ids')"
      by (cases "issue_calls b1 calls")
    have last: "msg_id (last (sink b1)) = Some ?X" by (simp add: b1)
    from Cons.prems c Inr res rest last have out: "b' = b2" "ids = ?X # ids'" by simp_all
    from Cons.IH [OF rest] have "map fst (pending b2) = map fst (pending b1) @ ids'"
      "serializer b2 = serializer b1" by simp_all
    with out show ?thesis by (simp add: b1)
  qed
qed

lemma issue_calls_count:
  "serializer b \<noteq> None \<Longrightarrow> length (snd (issue_calls b calls)) = length calls"
proof (induction calls arbitrary: b)
  case Nil
  then show ?case by simp
next
  case (Cons c calls)
  obtain now args rt where c: "c = (now, args, rt)" by (cases c)
  have "\<exists>fnArgs. (case ui_args args of None \<Rightarrow> Inr []
      | Some entries \<Rightarrow> encode_args (serializer b) entries) = Inr fnArgs"
    using Cons.prems encode_args_total [of "serializer b"] by (cases "ui_args args") auto
  then obtain b1 r where run: "runOnService b now args (Some rt) = Inr (b1, r)"
    by (auto simp: runOnService_def Let_def)
  then obtain X where last: "msg_id (last (sink b1)) = Some X" and ser: "serializer b1 = serializer b"
    by (auto dest!: runOnService_call)
  from ser Cons.prems have "length (snd (issue_calls b1 calls)) = length calls"
    by (intro Cons.IH) simp
  with c run last show ?case by (auto split: prod.splits)
qed

text \<open>
  Claim C2. For every broker and every sequence of calls issued with return types before
  any response arrives, the generated request ids are pairwise distinct and none of them
  was pending before; each is appended to the keys of the pending table, so a table with
  distinct keys keeps distinct keys and no id is ever mapped to two completers. With a
  serializer no call throws, so \<open>N\<close> calls generate \<open>N\<close> ids.
\<close>

theorem generated_ids_distinct:
  "distinct (snd (issue_calls b calls))
   \<and> set (snd (issue_calls b calls)) \<inter> fst ` set (pending b) = {}
   \<and> map fst (pending (fst (issue_calls b calls)))
       = map fst (pending b) @ snd (issue_calls b calls)
   \<and> (distinct (map fst (pending b)) \<longrightarrow>
        distinct (map fst (pending (fst (issue_calls b calls)))))
   \<and> (serializer b \<noteq> None \<longrightarrow> length (snd (issue_calls b calls)) = length calls)"
proof -
  have main: "distinct ids \<and> set ids \<inter> fst ` set (pending b) = {}"
    if "issue_calls b calls = (b', ids)" for b' ids
    using that
  proof (induction calls arbitrary: b b' ids)
    case Nil
    then show ?case by simp
  next
    case (Cons c calls)
    obtain now args rt where c: "c = (now, args, rt)" by (cases c)
    show ?case
    proof (cases "runOnService b now args (Some rt)")
      case (Inl e)
      with Cons.prems c have "issue_calls b calls = (b', ids)" by simp
      then show ?thesis by (rule Cons.IH)
    next
      case (Inr res)
      obtain b1 r where res: "res = (b1, r)" by (cases res)
      let ?X = "generateMessageId (pending b) (ui_method args) now"
      from Inr res obtain fnArgs where b1:
        "b1 = b\<lparr>promises := promises b
                   @ [\<lparr>promise_state = Pending, future_state = Pending, return_type = rt\<rparr>],
                 pending := pending b @ [(?X, length (promises b))],
                 sink := sink b
                   @ [\<lparr>msg_method = ui_method args, msg_args = fnArgs, msg_id = Some ?X\<rparr>]\<rparr>"
        using runOnService_call by blast
      obtain b2 ids' where rest: "issue_calls b1 calls = (b2, ids')"
        by (cases "issue_calls b1 calls")
      have last: "msg_id (last (sink b1)) = Some ?X" by (simp add: b1)
      from Cons.prems c Inr res rest last have out: "ids = ?X # ids'" by simp
      from Cons.IH [OF rest] have ih: "distinct ids'" "set ids' \<inter> fst ` set (pending b1) = {}"
        by simp_all
      have keys1: "fst ` set (pending b1) = insert ?X (fst ` set (pending b))"
        by (simp add: b1)
      have fresh: "?X \<notin> fst ` set (pending b)"
        using generateMessageId_fresh [of "pending b" "ui_method args" now]
        by (simp add: map_of_eq_None_iff)
      from ih keys1 fresh out show ?thesis by auto
    qed
  qed
  obtain b' ids where run: "issue_calls b calls = (b', ids)"
    by (cases "issue_calls b calls")
  note a = main [OF run]
  note k = issue_calls_keys [OF run]
  have d: "distinct (map fst (pending b)) \<longrightarrow> distinct (map fst (pending b'))"
    using a k by auto
  have n: "serializer b \<noteq> None \<longrightarrow> length ids = length calls"
    using issue_calls_count [of b calls] run by simp
  from a k d n run show ?thesis by simp
qed

lemma generateMessageId_one:
  "generateMessageId [(''foo120'', 0)] ''foo'' 12 = ''foo121''"
  by code_simp

lemma generateMessageId_two:
  "generateMessageId [(''foo120'', 0), (''foo121'', Suc 0)] ''foo'' 12 = ''foo122''"
  by code_simp

theorem generated_ids_distinct_witness:
  "snd (issue_calls (new_ClientMessageBroker (Some example_serializer) (Some []))
      [(12, example_args, Class ''String''), (12, example_args, Class ''String''),
       (12, example_args, Class ''String'')])
     = [''foo120'', ''foo121'', ''foo122'']
   \<and> distinct [''foo120'', ''foo121'', ''foo122'']
   \<and> map fst (pending (fst (issue_calls (new_ClientMessageBroker (Some example_serializer) (Some []))
      [(12, example_args, Class ''String''), (12, example_args, Class ''String''),
       (12, example_args, Class ''String'')])))
     = [''foo120'', ''foo121'', ''foo122'']"
proof -
  let ?b = "new_ClientMessageBroker (Some example_serializer) (Some [])"
  let ?calls = "[(12, example_args, Class ''String''), (12, example_args, Class ''String''),
       (12, example_args, Class ''String'')]"
  have ids: "snd (issue_calls ?b ?calls) = [''foo120'', ''foo121'', ''foo122'']"
    by (simp add: runOnService_def new_ClientMessageBroker_def example_args_def
      encode_arg_def call_serialize_def example_serializer_def generateMessageId_empty
      generateMessageId_one generateMessageId_two
      stringify_12 map_set_def emit_def Let_def)
  from generated_ids_distinct [of ?b ?calls] ids
  show ?thesis by (simp add: new_ClientMessageBroker_def)
qed


end
